theory Spec2Isabelle
  imports Complex_Main "HOL-Library.Multiset" "HOL-Library.Sublist" "HOL-Library.Product_Lexorder"
begin

section \<open>Strings and numbers of the host language\<close>

text \<open>
  Strings are lists of 8-bit code units. A number that carries a damage amount is an exact
  rational (the rounding of floating-point addition is abstracted away); a number that
  carries a count is a natural number; an instant is an integer number of milliseconds
  (the value of \<open>Date.getTime()\<close> of a valid date).
\<close>

definition isSpace :: "char \<Rightarrow> bool" where
  \<comment> \<open>the white space of \<open>\s\<close> and of \<open>trim\<close> among the 8-bit code units\<close>
  "isSpace c = (of_char c \<in> {9::nat, 10, 11, 12, 13, 32, 160})"

definition trim :: "string \<Rightarrow> string" where
  "trim s = rev (dropWhile isSpace (rev (dropWhile isSpace s)))"

fun splitOn :: "char \<Rightarrow> string \<Rightarrow> string list" where
  \<comment> \<open>\<open>s.split(sep)\<close> for a one-character separator: n separators give n + 1 pieces\<close>
  "splitOn sep [] = [[]]"
| "splitOn sep (c # cs) =
     (if c = sep then [] # splitOn sep cs
      else (case splitOn sep cs of
              p # ps \<Rightarrow> (c # p) # ps
            | [] \<Rightarrow> [[c]]))"

definition digitVal :: "char \<Rightarrow> nat" where
  "digitVal c = of_char c - 48"

definition Number :: "string \<Rightarrow> nat" where
  \<comment> \<open>\<open>Number(s)\<close> on a string of decimal digits; the empty string gives 0
      (exact where the platform is, up to \<open>2^53\<close>)\<close>
  "Number s = foldl (\<lambda>n c. 10 * n + digitVal c) 0 s"

definition digitChar :: "nat \<Rightarrow> char" where
  "digitChar d = char_of (48 + d)"

fun showNat :: "nat \<Rightarrow> string" where
  \<comment> \<open>the decimal text a template literal interpolates for a non-negative integer\<close>
  "showNat n = (if n < 10 then [digitChar n] else showNat (n div 10) @ [digitChar (n mod 10)])"

declare showNat.simps [simp del]

section \<open>ansiToBBCode\<close>

definition isParamChar :: "char \<Rightarrow> bool" where
  \<comment> \<open>the character class \<open>[0-9;]\<close>\<close>
  "isParamChar c = (c \<in> set ''0123456789;'')"

definition matchEsc :: "string \<Rightarrow> (string \<times> string) option" where
  \<comment> \<open>the regular expression \<open>\x1b\[([0-9;]+)m\<close> tried at the head of the text:
      the captured parameters and the text after the match (from \<open>esc.lastIndex\<close>)\<close>
  "matchEsc s =
     (case s of
        c1 # c2 # r \<Rightarrow>
          if c1 = CHR 0x1B \<and> c2 = CHR ''[''
          then (let ps = takeWhile isParamChar r in
                if ps \<noteq> []
                then (case dropWhile isParamChar r of
                        c3 # rest \<Rightarrow> if c3 = CHR ''m'' then Some (ps, rest) else None
                      | [] \<Rightarrow> None)
                else None)
          else None
      | _ \<Rightarrow> None)"

definition ansiColorNames :: "nat \<Rightarrow> string option" where
  "ansiColorNames n =
     (if n = 30 then Some ''BLACK'' else if n = 31 then Some ''RED''
      else if n = 32 then Some ''GREEN'' else if n = 33 then Some ''YELLOW''
      else if n = 34 then Some ''BLUE'' else if n = 35 then Some ''MAGENTA''
      else if n = 36 then Some ''CYAN'' else if n = 37 then Some ''WHITE''
      else if n = 90 then Some ''BROWN'' else if n = 91 then Some ''ORANGE''
      else if n = 92 then Some ''LIME GREEN'' else if n = 93 then Some ''YELLOW''
      else if n = 94 then Some ''BLUE'' else if n = 95 then Some ''MAGENTA''
      else if n = 96 then Some ''CYAN'' else if n = 97 then Some ''WHITE''
      else if n = 38 then Some ''PURPLE'' else None)"

datatype picked = Code nat | Named string

fun findXterm :: "nat list \<Rightarrow> nat option option" where
  \<comment> \<open>\<open>codes.findIndex((c, idx) => c === 38 && codes[idx + 1] === 5)\<close>, returning
      \<open>codes[i + 2]\<close> of the index found (\<open>None\<close> inside: undefined)\<close>
  "findXterm (c # d # r) =
     (if c = 38 \<and> d = 5 then Some (case r of [] \<Rightarrow> None | x # _ \<Rightarrow> Some x)
      else findXterm (d # r))"
| "findXterm _ = None"

definition pick :: "nat list \<Rightarrow> picked option" where
  "pick codes =
     (case List.find (\<lambda>c. 90 \<le> c \<and> c \<le> 97) codes of
        Some bright \<Rightarrow> Some (Code bright)
      | None \<Rightarrow>
         (case List.find (\<lambda>c. 30 \<le> c \<and> c \<le> 37) codes of
            Some basic \<Rightarrow> Some (Code basic)
          | None \<Rightarrow>
             (case findXterm codes of
                Some x \<Rightarrow>
                  if x = Some 61 then Some (Named ''PURPLE'')
                  else Some (Named (''XTERM-'' @
                         (case x of None \<Rightarrow> ''undefined'' | Some n \<Rightarrow> showNat n)))
              | None \<Rightarrow> None)))"

text \<open>
  The output string is built by successive \<open>out += ...\<close>; a piece is what one of them
  appends: a character of the line, an opening tag, or a closing tag.
\<close>

datatype piece = Chr char | OpenTag string | CloseTag

fun render :: "piece \<Rightarrow> string" where
  "render (Chr c) = [c]"
| "render (OpenTag name) = ''[COLOR='' @ name @ '']''"
| "render CloseTag = ''[/COLOR]''"

definition truthy :: "string option \<Rightarrow> bool" where
  \<comment> \<open>\<open>if (open)\<close> on \<open>string | null\<close>\<close>
  "truthy opn = (case opn of None \<Rightarrow> False | Some n \<Rightarrow> n \<noteq> [])"

definition charAt0 :: "string \<Rightarrow> string" where
  \<comment> \<open>\<open>line.charAt(esc.lastIndex)\<close>: the empty string at the end of the line\<close>
  "charAt0 rest = take 1 rest"

definition escBody :: "string \<Rightarrow> string \<Rightarrow> string option \<Rightarrow> piece list \<times> string option" where
  \<comment> \<open>the body of the \<open>while\<close> loop after the text before the match has been copied:
      the pieces appended and the new value of \<open>open\<close>\<close>
  "escBody params rest opn =
     (let codes = map Number (splitOn (CHR '';'') params);
          r = (if 0 \<in> set codes \<and> truthy opn then ([CloseTag], None) else ([], opn))
      in case pick codes of
           None \<Rightarrow> r
         | Some col \<Rightarrow>
            (case (case col of Code n \<Rightarrow> ansiColorNames n | Named s \<Rightarrow> Some s) of
               None \<Rightarrow> r
             | Some name \<Rightarrow>
                 if name \<noteq> [] \<and> charAt0 rest \<noteq> '']''
                 then (fst r @ (if truthy (snd r) then [CloseTag] else []) @ [OpenTag name],
                       Some name)
                 else r))"

function scan :: "string \<Rightarrow> string option \<Rightarrow> piece list" where
  \<comment> \<open>the \<open>while ((m = esc.exec(line)))\<close> loop and the tail after it: the text up to the
      leftmost match is copied, the match is consumed, and the scan resumes after it\<close>
  "scan [] opn = (if truthy opn then [CloseTag] else [])"
| "scan (c # cs) opn =
     (case matchEsc (c # cs) of
        None \<Rightarrow> Chr c # scan cs opn
      | Some (params, rest) \<Rightarrow>
          (case escBody params rest opn of
             (ps, opn') \<Rightarrow> ps @ scan rest opn'))"
  by pat_completeness auto
termination
  apply (relation "measure (\<lambda>(s, _). length s)")
    apply simp
   apply simp
  apply (clarsimp simp: matchEsc_def Let_def split: list.splits if_splits)
  apply (metis length_dropWhile_le length_Cons less_Suc_eq_le le_SucI Suc_le_eq)
  done

definition ansiPieces :: "string \<Rightarrow> piece list" where
  "ansiPieces line = scan line None"

definition ansiToBBCode :: "string \<Rightarrow> string" where
  "ansiToBBCode line = concat (map render (ansiPieces line))"

text \<open>Counting the tags that the translator emits, and the text it copies.\<close>

definition opens :: "piece list \<Rightarrow> nat" where
  "opens ps = length (filter (\<lambda>p. case p of OpenTag _ \<Rightarrow> True | _ \<Rightarrow> False) ps)"

definition closes :: "piece list \<Rightarrow> nat" where
  "closes ps = length (filter (\<lambda>p. p = CloseTag) ps)"


fun depthAfter :: "nat \<Rightarrow> piece list \<Rightarrow> nat option" where
  \<comment> \<open>the number of tags open after the pieces, starting with \<open>d\<close> open;
      \<open>None\<close> when some closing tag has no tag to close\<close>
  "depthAfter d [] = Some d"
| "depthAfter d (Chr _ # ps) = depthAfter d ps"
| "depthAfter d (OpenTag _ # ps) = depthAfter (Suc d) ps"
| "depthAfter d (CloseTag # ps) = (if d = 0 then None else depthAfter (d - 1) ps)"


definition depthOf :: "string option \<Rightarrow> nat" where
  "depthOf opn = (if truthy opn then 1 else 0)"

section \<open>Log records\<close>

record DamageActorRow =
  actor :: string
  totalAsSource :: rat
  totalAsTarget :: rat
  countAsSource :: nat
  countAsTarget :: nat

record DamageEvent =
  raw :: string
  source :: string
  target :: string
  verbKey :: string
  amount :: rat

record DamagePayload =
  totalDamage :: rat
  hits :: nat
  misses :: nat
  events :: "DamageEvent list option"
  bySource :: "DamageActorRow list option"
  byTarget :: "DamageActorRow list option"

datatype EntryType = DslMessage | Damage

record LogEntry =
  ts :: int
  etype :: EntryType
  message :: "string option"
  payload :: "DamagePayload option"

definition FIVE_MIN_MS :: int where
  "FIVE_MIN_MS = 5 * 60 * 1000"

definition normalizeActor :: "string \<Rightarrow> string" where
  \<comment> \<open>\<open>name.replace(/^\s*\[[^\]]*]\s*/, "")\<close>: without a match the name is returned whole\<close>
  "normalizeActor name =
     (case dropWhile isSpace name of
        [] \<Rightarrow> name
      | c # r \<Rightarrow>
          if c = CHR ''[''
          then (case dropWhile (\<lambda>x. x \<noteq> CHR '']'') r of
                  [] \<Rightarrow> name
                | _ # t \<Rightarrow> dropWhile isSpace t)
          else name)"

section \<open>parseLog\<close>

text \<open>
  \<open>JSON.parse\<close> and the \<open>Date\<close> constructor belong to the platform: the parser takes
  the decoder as a parameter. For a line that \<open>JSON.parse\<close> accepts, the decoder gives
  the three properties that \<open>parseLog\<close> reads, typed the way \<open>LogEntry\<close> declares them:
  \<open>otype\<close> is \<open>obj.type\<close> when it is a string, \<open>otimestamp\<close> the instant of
  \<open>new Date(obj.timestamp)\<close>, \<open>omessage\<close> is \<open>obj.payload\<close> read as a message
  (\<open>None\<close>: null or undefined) and \<open>odamage\<close> is \<open>obj.payload\<close> read as a damage
  payload. A value without properties (a number, a string, an array) is an object whose
  \<open>otype\<close> is \<open>None\<close>. Reading \<open>obj.type\<close> of \<open>null\<close> throws outside the \<open>try\<close>.
  Timestamps are valid dates; with an invalid date the comparator of the sort is
  inconsistent and the order is left to the implementation.
\<close>

record JsonObject =
  otype :: "string option"
  otimestamp :: int
  omessage :: "string option"
  odamage :: "DamagePayload option"

datatype decoded = Malformed | JNull | JObject JsonObject

datatype error = TypeError

fun consHead :: "char \<Rightarrow> string list \<Rightarrow> string list" where
  "consHead c (p # ps) = (c # p) # ps"
| "consHead c [] = [[c]]"

fun splitLines :: "string \<Rightarrow> string list" where
  \<comment> \<open>\<open>text.split(/\r?\n/)\<close>\<close>
  "splitLines [] = [[]]"
| "splitLines [c] = (if c = CHR 0x0A then [[], []] else [[c]])"
| "splitLines (c # d # cs) =
     (if c = CHR 0x0A then [] # splitLines (d # cs)
      else if c = CHR 0x0D \<and> d = CHR 0x0A then [] # splitLines cs
      else consHead c (splitLines (d # cs)))"

definition toEntries :: "JsonObject \<Rightarrow> LogEntry list" where
  \<comment> \<open>what one decoded object pushes onto \<open>raw\<close>\<close>
  "toEntries obj =
     (if otype obj = Some ''dsl-message''
      then [\<lparr>ts = otimestamp obj, etype = DslMessage,
             message = Some (case omessage obj of None \<Rightarrow> [] | Some m \<Rightarrow> m),
             payload = None\<rparr>]
      else if otype obj = Some ''damage''
      then [\<lparr>ts = otimestamp obj, etype = Damage, message = None, payload = odamage obj\<rparr>]
      else [])"

fun collect :: "(string \<Rightarrow> decoded) \<Rightarrow> string list \<Rightarrow> error + LogEntry list" where
  \<comment> \<open>the \<open>for (const line of ...)\<close> loop that fills \<open>raw\<close>\<close>
  "collect decode [] = Inr []"
| "collect decode (line # ls) =
     (if trim line = [] then collect decode ls
      else (case decode line of
              Malformed \<Rightarrow> collect decode ls
            | JNull \<Rightarrow> Inl TypeError
            | JObject obj \<Rightarrow>
                (case collect decode ls of
                   Inl e \<Rightarrow> Inl e
                 | Inr rest \<Rightarrow> Inr (toEntries obj @ rest))))"

text \<open>
  The key \<open>`${e.ts.toISOString()}|${e.type}|${e.message}`\<close> is modelled by the triple it
  encodes: the ISO text has millisecond resolution and no \<open>|\<close>, so two keys are equal
  exactly when the triples are.
\<close>

type_synonym dedupeKey = "int \<times> EntryType \<times> string"

definition keyOf :: "LogEntry \<Rightarrow> dedupeKey" where
  "keyOf e = (ts e, etype e, (case message e of None \<Rightarrow> ''undefined'' | Some m \<Rightarrow> m))"

fun dedupe :: "dedupeKey set \<Rightarrow> LogEntry list \<Rightarrow> LogEntry list" where
  \<comment> \<open>the loop over \<open>raw\<close> that fills \<open>out\<close>, with the set \<open>seen\<close>\<close>
  "dedupe seen [] = []"
| "dedupe seen (e # es) =
     (if etype e = DslMessage
      then (if keyOf e \<in> seen then dedupe seen es
            else e # dedupe (insert (keyOf e) seen) es)
      else e # dedupe seen es)"

definition parseLog :: "(string \<Rightarrow> decoded) \<Rightarrow> string \<Rightarrow> error + LogEntry list" where
  \<comment> \<open>\<open>raw.sort\<close> is the stable sort of the platform, by the instant in milliseconds\<close>
  "parseLog decode text =
     (case collect decode (splitLines text) of
        Inl e \<Rightarrow> Inl e
      | Inr rawEntries \<Rightarrow> Inr (dedupe {} (sort_key ts rawEntries)))"

section \<open>Fight batching\<close>

record PerActor =
  damage :: rat
  hitsAcc :: nat
  missesAcc :: nat

definition zeroPerActor :: PerActor where
  "zeroPerActor = \<lparr>damage = 0, hitsAcc = 0, missesAcc = 0\<rparr>"

text \<open>
  A \<open>Map<string, PerActor>\<close> iterates in insertion order: it is an association list in
  which \<open>set\<close> on a present key keeps the position of the key.
\<close>

type_synonym actorMap = "(string \<times> PerActor) list"

definition getOrZero :: "actorMap \<Rightarrow> string \<Rightarrow> PerActor" where
  \<comment> \<open>\<open>map.get(name) ?? { damage: 0, hits: 0, misses: 0 }\<close>\<close>
  "getOrZero m name = (case map_of m name of None \<Rightarrow> zeroPerActor | Some cur \<Rightarrow> cur)"

fun mapSet :: "string \<Rightarrow> PerActor \<Rightarrow> actorMap \<Rightarrow> actorMap" where
  "mapSet k v [] = [(k, v)]"
| "mapSet k v ((k', v') # m) = (if k = k' then (k, v) # m else (k', v') # mapSet k v m)"

definition rowsOf :: "DamagePayload \<Rightarrow> DamageActorRow list" where
  "rowsOf p = (case bySource p of None \<Rightarrow> [] | Some rows \<Rightarrow> rows)"

definition eventsOf :: "DamagePayload \<Rightarrow> DamageEvent list" where
  "eventsOf p = (case events p of None \<Rightarrow> [] | Some evs \<Rightarrow> evs)"

definition hasBySource :: "DamagePayload \<Rightarrow> bool" where
  \<comment> \<open>\<open>!!(p.bySource && p.bySource.length)\<close>\<close>
  "hasBySource p = (length (rowsOf p) > 0)"

definition hasEvents :: "DamagePayload \<Rightarrow> bool" where
  \<comment> \<open>\<open>p.events && p.events.length\<close>\<close>
  "hasEvents p = (length (eventsOf p) > 0)"

text \<open>On the numbers of this model \<open>x || 0\<close> and \<open>x ?? 0\<close> are \<open>x\<close>.\<close>

definition addRow :: "DamageActorRow \<Rightarrow> actorMap \<Rightarrow> actorMap" where
  "addRow row m =
     (let name = normalizeActor (actor row); cur = getOrZero m name
      in mapSet name (cur\<lparr>damage := damage cur + totalAsSource row,
                          hitsAcc := hitsAcc cur + countAsSource row\<rparr>) m)"

definition addHitEvent :: "DamageEvent \<Rightarrow> actorMap \<Rightarrow> actorMap" where
  "addHitEvent ev m =
     (let name = normalizeActor (source ev); cur = getOrZero m name
      in mapSet name (if amount ev > 0
                      then cur\<lparr>damage := damage cur + amount ev, hitsAcc := hitsAcc cur + 1\<rparr>
                      else cur) m)"

definition addMissEvent :: "DamageEvent \<Rightarrow> actorMap \<Rightarrow> actorMap" where
  "addMissEvent ev m =
     (if amount ev = 0
      then (let name = normalizeActor (source ev); cur = getOrZero m name
            in mapSet name (cur\<lparr>missesAcc := missesAcc cur + 1\<rparr>) m)
      else m)"

definition addRoundToActors :: "DamagePayload \<Rightarrow> actorMap \<Rightarrow> actorMap" where
  "addRoundToActors p m =
     (let m1 = (if hasBySource p then foldl (\<lambda>m row. addRow row m) m (rowsOf p)
                else if hasEvents p then foldl (\<lambda>m ev. addHitEvent ev m) m (eventsOf p)
                else m)
      in if hasEvents p then foldl (\<lambda>m ev. addMissEvent ev m) m1 (eventsOf p) else m1)"

definition addHitToTotals :: "DamageEvent \<Rightarrow> PerActor \<Rightarrow> PerActor" where
  "addHitToTotals ev t =
     (if amount ev > 0 then t\<lparr>damage := damage t + amount ev, hitsAcc := hitsAcc t + 1\<rparr> else t)"

definition addRoundToTotals :: "DamagePayload \<Rightarrow> PerActor \<Rightarrow> PerActor" where
  \<comment> \<open>\<open>typeof p.misses === "number"\<close> holds by the type of the field; an absent
      field would add nothing, as 0 does\<close>
  "addRoundToTotals p t =
     (let t1 = (if hasBySource p
                then t\<lparr>damage := damage t + foldl (\<lambda>s r. s + totalAsSource r) 0 (rowsOf p),
                       hitsAcc := hitsAcc t + foldl (\<lambda>s r. s + countAsSource r) 0 (rowsOf p)\<rparr>
                else if hasEvents p
                then foldl (\<lambda>t ev. addHitToTotals ev t) t (eventsOf p)
                else t\<lparr>damage := damage t + totalDamage p, hitsAcc := hitsAcc t + hits p\<rparr>)
      in if hasEvents p
         then t1\<lparr>missesAcc := missesAcc t1 + length (filter (\<lambda>e. amount e = 0) (eventsOf p))\<rparr>
         else t1\<lparr>missesAcc := missesAcc t1 + misses p\<rparr>)"

definition addEventToRound :: "bool \<Rightarrow> DamageEvent \<Rightarrow> actorMap \<Rightarrow> actorMap" where
  \<comment> \<open>the body of the loop over \<open>p.events\<close> in \<open>buildRoundPerSourceLines\<close>\<close>
  "addEventToRound bySrc ev m =
     (let name = normalizeActor (source ev); cur = getOrZero m name;
          cur1 = (if \<not> bySrc \<and> amount ev > 0
                  then cur\<lparr>damage := damage cur + amount ev, hitsAcc := hitsAcc cur + 1\<rparr>
                  else cur);
          cur2 = (if amount ev = 0 then cur1\<lparr>missesAcc := missesAcc cur1 + 1\<rparr> else cur1)
      in mapSet name cur2 m)"

definition roundPerSource :: "DamagePayload \<Rightarrow> actorMap" where
  \<comment> \<open>the map \<open>per\<close> of \<open>buildRoundPerSourceLines\<close> before it is sorted\<close>
  "roundPerSource p =
     (let per1 = (if hasBySource p then foldl (\<lambda>m row. addRow row m) [] (rowsOf p) else [])
      in if hasEvents p
         then foldl (\<lambda>m ev. addEventToRound (hasBySource p) ev m) per1 (eventsOf p)
         else per1)"

definition buildRoundPerSourceLines :: "DamagePayload \<Rightarrow> (string \<times> PerActor) list" where
  \<comment> \<open>the rows in display order: damage descending, then hits descending, ties in
      insertion order; each row is the actor and the figures that its line shows\<close>
  "buildRoundPerSourceLines p =
     sort_key (\<lambda>(name, agg). (- damage agg, - int (hitsAcc agg))) (roundPerSource p)"

text \<open>
  A line written to the terminal is modelled by the template that produced it and the
  values interpolated into it; on the screen a damage of an actor line or of a summary
  header is shown through \<open>fmt1\<close>, rounded to one decimal.
\<close>

datatype termLine =
    Narrative string
  | RoundHeader rat nat nat
  | BySourceHeader
  | ActorLine string PerActor
  | SummaryHeader PerActor
  | Blank

record PlaybackState =
  lastIndex :: nat
  lastDamageTs :: "int option"
  nextFlushDeadline :: "int option"
  fightFlushedByTimer :: bool
  byActor :: actorMap
  totals :: PerActor
  flushedFinal :: bool
  terminal :: "termLine list"

definition initState :: PlaybackState where
  \<comment> \<open>the refs after a log has been loaded\<close>
  "initState = \<lparr>lastIndex = 0, lastDamageTs = None, nextFlushDeadline = None,
                 fightFlushedByTimer = False, byActor = [], totals = zeroPerActor,
                 flushedFinal = False, terminal = []\<rparr>"

definition fightOpen :: "PlaybackState \<Rightarrow> bool" where
  \<comment> \<open>the guard \<open>byActorRef.current.size > 0 || totalsRef.current.damage > 0 || ...\<close>\<close>
  "fightOpen s =
     (length (byActor s) > 0 \<or> damage (totals s) > 0 \<or> hitsAcc (totals s) > 0
      \<or> missesAcc (totals s) > 0)"

definition summaryRows :: "PlaybackState \<Rightarrow> (string \<times> PerActor) list" where
  \<comment> \<open>\<open>[...map.entries()].sort((a, b) => b[1].damage - a[1].damage)\<close>\<close>
  "summaryRows s = sort_key (\<lambda>(name, agg). - damage agg) (byActor s)"

definition summaryBlock :: "PlaybackState \<Rightarrow> termLine list" where
  "summaryBlock s =
     SummaryHeader (totals s) # map (\<lambda>(name, agg). ActorLine name agg) (summaryRows s) @ [Blank]"

definition flushFightSummary :: "PlaybackState \<Rightarrow> PlaybackState" where
  "flushFightSummary s =
     (if length (byActor s) = 0 \<and> damage (totals s) = 0 \<and> hitsAcc (totals s) = 0
         \<and> missesAcc (totals s) = 0
      then s
      else s\<lparr>terminal := terminal s @ summaryBlock s,
             byActor := [], totals := zeroPerActor, lastDamageTs := None,
             nextFlushDeadline := None, fightFlushedByTimer := True\<rparr>)"

definition accumulatorZero :: "PlaybackState \<Rightarrow> bool" where
  \<comment> \<open>the test under which \<open>flushFightSummary\<close> returns at once\<close>
  "accumulatorZero s =
     (length (byActor s) = 0 \<and> damage (totals s) = 0 \<and> hitsAcc (totals s) = 0
      \<and> missesAcc (totals s) = 0)"

definition gapFlushDue :: "int \<Rightarrow> PlaybackState \<Rightarrow> bool" where
  \<comment> \<open>the condition of the flush before a round\<close>
  "gapFlushDue curTs s =
     (case lastDamageTs s of
        None \<Rightarrow> False
      | Some prev \<Rightarrow> curTs - prev \<ge> FIVE_MIN_MS \<and> fightOpen s)"

definition roundLines :: "DamagePayload \<Rightarrow> termLine list" where
  \<comment> \<open>the round header and the per-source lines below it\<close>
  "roundLines p =
     RoundHeader (totalDamage p) (hits p) (misses p) #
     (let rows = buildRoundPerSourceLines p
      in if length rows > 0 then BySourceHeader # map (\<lambda>(name, agg). ActorLine name agg) rows
         else [])"

definition processRound :: "int \<Rightarrow> DamagePayload \<Rightarrow> PlaybackState \<Rightarrow> PlaybackState" where
  "processRound curTs p s =
     (let s1 = (if gapFlushDue curTs s then flushFightSummary s else s);
          s2 = s1\<lparr>terminal := terminal s1 @ roundLines p\<rparr>;
          s3 = s2\<lparr>byActor := addRoundToActors p (byActor s2),
                  totals := addRoundToTotals p (totals s2)\<rparr>
      in s3\<lparr>lastDamageTs := Some curTs,
            nextFlushDeadline := Some (curTs + FIVE_MIN_MS),
            fightFlushedByTimer := False,
            terminal := terminal s3 @ [Blank, Blank]\<rparr>)"

definition processEntry :: "LogEntry \<Rightarrow> PlaybackState \<Rightarrow> PlaybackState" where
  \<comment> \<open>the body of the loop over the newly visible entries\<close>
  "processEntry e s =
     (case etype e of
        DslMessage \<Rightarrow>
          (let line = (case message e of None \<Rightarrow> [] | Some m \<Rightarrow> m)
           in s\<lparr>terminal := terminal s @ [Narrative (if length line > 0 then line else '' '')]\<rparr>)
      | Damage \<Rightarrow>
          (case payload e of
             None \<Rightarrow> s
           | Some p \<Rightarrow> processRound (ts e) p s))"

function emitLoop :: "LogEntry list \<Rightarrow> nat \<Rightarrow> nat \<Rightarrow> PlaybackState \<Rightarrow> PlaybackState" where
  \<comment> \<open>\<open>for (let i = lastIndexRef.current; i < end; i++)\<close>\<close>
  "emitLoop entries i endIdx s =
     (if i < endIdx then emitLoop entries (Suc i) endIdx (processEntry (entries ! i) s) else s)"
  by pat_completeness auto
termination
  by (relation "measure (\<lambda>(entries, i, endIdx, s). endIdx - i)") auto

declare emitLoop.simps [simp del]

fun findIndex :: "('a \<Rightarrow> bool) \<Rightarrow> 'a list \<Rightarrow> int" where
  \<comment> \<open>\<open>Array.prototype.findIndex\<close>: -1 when no element satisfies the predicate\<close>
  "findIndex P [] = - 1"
| "findIndex P (x # xs) =
     (if P x then 0 else (let r = findIndex P xs in if r = - 1 then - 1 else r + 1))"

definition cutoffOf :: "LogEntry list \<Rightarrow> rat \<Rightarrow> rat" where
  \<comment> \<open>\<open>base + time * 1000\<close>, in milliseconds; \<open>time\<close> is in seconds\<close>
  "cutoffOf entries time = of_int (ts (entries ! 0)) + time * 1000"

definition visibleEnd :: "LogEntry list \<Rightarrow> rat \<Rightarrow> nat" where
  "visibleEnd entries time =
     (let nextIdx = findIndex (\<lambda>e. of_int (ts e) > cutoffOf entries time) entries
      in if nextIdx = - 1 then length entries else nat nextIdx)"


definition emitEntries :: "LogEntry list \<Rightarrow> rat \<Rightarrow> PlaybackState \<Rightarrow> PlaybackState" where
  \<comment> \<open>step 1 of the playback effect: the loop and the update of \<open>lastIndexRef\<close>\<close>
  "emitEntries entries time s =
     (let endIdx = visibleEnd entries time
      in (emitLoop entries (lastIndex s) endIdx s)\<lparr>lastIndex := endIdx\<rparr>)"



section \<open>Figures of a round, as the specification words them\<close>

definition claimedRoundDamage :: "DamagePayload \<Rightarrow> rat" where
  \<comment> \<open>two tiers: the rows by source when there are any, else the events that hit\<close>
  "claimedRoundDamage p =
     (if hasBySource p then sum_list (map totalAsSource (rowsOf p))
      else sum_list (map amount (filter (\<lambda>e. amount e > 0) (eventsOf p))))"

definition claimedRoundHits :: "DamagePayload \<Rightarrow> nat" where
  "claimedRoundHits p =
     (if hasBySource p then sum_list (map countAsSource (rowsOf p))
      else length (filter (\<lambda>e. amount e > 0) (eventsOf p)))"

definition roundMisses :: "DamagePayload \<Rightarrow> nat" where
  "roundMisses p =
     (if hasEvents p then length (filter (\<lambda>e. amount e = 0) (eventsOf p)) else misses p)"

definition roundDamage :: "DamagePayload \<Rightarrow> rat" where
  \<comment> \<open>three tiers: without rows and without events, the round's own total\<close>
  "roundDamage p = (if hasBySource p \<or> hasEvents p then claimedRoundDamage p else totalDamage p)"

definition roundHits :: "DamagePayload \<Rightarrow> nat" where
  "roundHits p = (if hasBySource p \<or> hasEvents p then claimedRoundHits p else hits p)"

definition actorDamage :: "DamagePayload \<Rightarrow> string \<Rightarrow> rat" where
  "actorDamage p n =
     (if hasBySource p
      then sum_list (map totalAsSource (filter (\<lambda>r. normalizeActor (actor r) = n) (rowsOf p)))
      else sum_list (map amount
             (filter (\<lambda>e. normalizeActor (source e) = n \<and> amount e > 0) (eventsOf p))))"

definition actorHits :: "DamagePayload \<Rightarrow> string \<Rightarrow> nat" where
  "actorHits p n =
     (if hasBySource p
      then sum_list (map countAsSource (filter (\<lambda>r. normalizeActor (actor r) = n) (rowsOf p)))
      else length (filter (\<lambda>e. normalizeActor (source e) = n \<and> amount e > 0) (eventsOf p)))"

definition actorMisses :: "DamagePayload \<Rightarrow> string \<Rightarrow> nat" where
  "actorMisses p n =
     length (filter (\<lambda>e. normalizeActor (source e) = n \<and> amount e = 0) (eventsOf p))"

definition plusAgg :: "PerActor \<Rightarrow> rat \<Rightarrow> nat \<Rightarrow> nat \<Rightarrow> PerActor" where
  "plusAgg a d h k =
     \<lparr>damage = damage a + d, hitsAcc = hitsAcc a + h, missesAcc = missesAcc a + k\<rparr>"


section \<open>Deduplication, as the specification words it\<close>

fun dropIfRepeated :: "LogEntry list \<Rightarrow> LogEntry list" where
  \<comment> \<open>on a list in reverse order (latest entry first): a narrative entry is dropped when
      its key occurs among the narrative entries that precede it in time\<close>
  "dropIfRepeated [] = []"
| "dropIfRepeated (e # earlier) =
     (if etype e = DslMessage
         \<and> keyOf e \<in> set (map keyOf (filter (\<lambda>x. etype x = DslMessage) earlier))
      then dropIfRepeated earlier
      else e # dropIfRepeated earlier)"

section \<open>Reading the terminal\<close>



fun isEnder :: "termLine \<Rightarrow> bool" where
  "isEnder Blank = True"
| "isEnder (Narrative _) = True"
| "isEnder _ = False"

definition closedOut :: "termLine list \<Rightarrow> bool" where
  \<comment> \<open>no block of actor lines is left unfinished at the end\<close>
  "closedOut ls = (ls = [] \<or> isEnder (last ls))"



fun isRoundHeader :: "termLine \<Rightarrow> bool" where
  "isRoundHeader (RoundHeader _ _ _) = True"
| "isRoundHeader _ = False"

definition roundCount :: "termLine list \<Rightarrow> nat" where
  "roundCount ls = length (filter isRoundHeader ls)"

section \<open>Reading a stretch of the timeline\<close>

fun roundsIn :: "LogEntry list \<Rightarrow> DamagePayload list" where
  \<comment> \<open>the payloads of the damage rounds among the entries, in order\<close>
  "roundsIn [] = []"
| "roundsIn (e # es) =
     (case etype e of
        DslMessage \<Rightarrow> roundsIn es
      | Damage \<Rightarrow> (case payload e of None \<Rightarrow> roundsIn es | Some p \<Rightarrow> p # roundsIn es))"

fun noGap :: "int option \<Rightarrow> LogEntry list \<Rightarrow> bool" where
  \<comment> \<open>every damage round is less than five minutes after the damage round before it;
      the first argument is the instant of the round before the entries, if any\<close>
  "noGap prev [] = True"
| "noGap prev (e # es) =
     (case etype e of
        DslMessage \<Rightarrow> noGap prev es
      | Damage \<Rightarrow>
          (case payload e of
             None \<Rightarrow> noGap prev es
           | Some p \<Rightarrow>
               (case prev of None \<Rightarrow> True | Some l \<Rightarrow> ts e - l < FIVE_MIN_MS)
               \<and> noGap (Some (ts e)) es))"

definition newlyVisible :: "LogEntry list \<Rightarrow> rat \<Rightarrow> PlaybackState \<Rightarrow> LogEntry list" where
  \<comment> \<open>the entries from the previous boundary up to the new one\<close>
  "newlyVisible entries time s =
     take (visibleEnd entries time - lastIndex s) (drop (lastIndex s) entries)"



section \<open>Example inputs\<close>

definition exampleDamage :: DamagePayload where
  "exampleDamage = \<lparr>totalDamage = 7, hits = 1, misses = 0, events = None,
                     bySource = None, byTarget = None\<rparr>"

definition exampleDecode :: "string \<Rightarrow> decoded" where
  "exampleDecode line =
     (if line = ''m'' then JObject \<lparr>otype = Some ''dsl-message'', otimestamp = 5,
                                   omessage = Some ''hi'', odamage = None\<rparr>
      else if line = ''d'' then JObject \<lparr>otype = Some ''damage'', otimestamp = 5,
                                   omessage = None, odamage = Some exampleDamage\<rparr>
      else if line = ''e'' then JObject \<lparr>otype = Some ''dsl-message'', otimestamp = 2,
                                   omessage = None, odamage = None\<rparr>
      else if line = ''n'' then JNull
      else Malformed)"

definition exampleNarrative :: LogEntry where
  "exampleNarrative = \<lparr>ts = 5, etype = DslMessage, message = Some ''hi'', payload = None\<rparr>"

definition exampleRound :: LogEntry where
  "exampleRound = \<lparr>ts = 5, etype = Damage, message = None, payload = Some exampleDamage\<rparr>"

definition exampleEvent :: "string \<Rightarrow> rat \<Rightarrow> DamageEvent" where
  "exampleEvent who n = \<lparr>raw = [], source = who, target = ''orc'', verbKey = [], amount = n\<rparr>"

definition exampleEventsRound :: DamagePayload where
  \<comment> \<open>a round that carries events only\<close>
  "exampleEventsRound =
     \<lparr>totalDamage = 8, hits = 2, misses = 1,
      events = Some [exampleEvent ''[Clan] Rogar'' 5, exampleEvent ''Rogar'' 0,
                     exampleEvent ''Mira'' 3],
      bySource = None, byTarget = None\<rparr>"

definition roundAt :: "int \<Rightarrow> DamagePayload \<Rightarrow> LogEntry" where
  "roundAt t p = \<lparr>ts = t, etype = Damage, message = None, payload = Some p\<rparr>"

definition narrativeAt :: "int \<Rightarrow> string \<Rightarrow> LogEntry" where
  "narrativeAt t m = \<lparr>ts = t, etype = DslMessage, message = Some m, payload = None\<rparr>"


definition exampleTimeline :: "LogEntry list" where
  "exampleTimeline =
     [narrativeAt 0 ''You attack.'', roundAt 1000 exampleEventsRound,
      roundAt 2000 exampleEventsRound, roundAt 3000 exampleEventsRound]"


section \<open>Properties of the translator\<close>

lemma depthAfter_append:
  "depthAfter d (ps @ qs) = (case depthAfter d ps of None \<Rightarrow> None | Some e \<Rightarrow> depthAfter e qs)"
  by (induction d ps rule: depthAfter.induct) auto

lemma depthAfter_counts:
  "depthAfter d ps = Some e \<Longrightarrow>
     closes (take n ps) \<le> d + opens (take n ps) \<and> e + closes ps = d + opens ps"
proof (induction d ps arbitrary: n rule: depthAfter.induct)
  case (1 d)
  then show ?case by (simp add: opens_def closes_def)
next
  case (2 d c ps)
  then have "depthAfter d ps = Some e" by simp
  from "2.IH" [OF this, of "n - 1"] "2.IH" [OF this, of n] show ?case
    by (cases n) (simp_all add: opens_def closes_def)
next
  case (3 d nm ps)
  then have "depthAfter (Suc d) ps = Some e" by simp
  from "3.IH" [OF this, of "n - 1"] show ?case
    by (cases n) (simp_all add: opens_def closes_def)
next
  case (4 d ps)
  then have d: "d \<noteq> 0" and "depthAfter (d - 1) ps = Some e" by (simp_all split: if_splits)
  from "4.IH" [OF this, of "n - 1"]
  have "closes (take (n - 1) ps) \<le> d - 1 + opens (take (n - 1) ps)"
    and "e + closes ps = d - 1 + opens ps" by simp_all
  with d have "Suc (closes (take (n - 1) ps)) \<le> d + opens (take (n - 1) ps)"
    and "e + Suc (closes ps) = d + opens ps" by arith+
  then show ?case
    by (cases n) (simp_all add: opens_def closes_def)
qed

lemma escBody_depth:
  "opn \<noteq> Some [] \<Longrightarrow> escBody params rest opn = (ps, opn') \<Longrightarrow>
     depthAfter (depthOf opn) ps = Some (depthOf opn') \<and> opn' \<noteq> Some []"
  by (auto simp: escBody_def Let_def depthOf_def truthy_def
           split: option.splits if_splits)

lemma scan_depth:
  "opn \<noteq> Some [] \<Longrightarrow> depthAfter (depthOf opn) (scan s opn) = Some 0"
proof (induction s opn rule: scan.induct)
  case (1 opn)
  then show ?case by (simp add: depthOf_def)
next
  case (2 c cs opn)
  show ?case
  proof (cases "matchEsc (c # cs)")
    case None
    with 2 show ?thesis by simp
  next
    case (Some m)
    obtain params rest where m: "m = (params, rest)" by (cases m)
    obtain ps opn' where e: "escBody params rest opn = (ps, opn')"
      by (cases "escBody params rest opn")
    from escBody_depth [OF "2.prems" e]
    have d: "depthAfter (depthOf opn) ps = Some (depthOf opn')" and o: "opn' \<noteq> Some []"
      by simp_all
    from "2.IH"(2) [OF Some m [symmetric] e [symmetric] o]
    have "depthAfter (depthOf opn') (scan rest opn') = Some 0" .
    with Some m e d show ?thesis by (simp add: depthAfter_append)
  qed
qed

text \<open>
  C10. The tags that \<open>ansiToBBCode\<close> emits are balanced: as many opening tags as closing
  tags, and in every prefix of the emitted pieces no more closing tags than opening tags.
\<close>

theorem ansi_balanced:
  "opens (ansiPieces line) = closes (ansiPieces line) \<and>
   (\<forall>n. closes (take n (ansiPieces line)) \<le> opens (take n (ansiPieces line)))"
proof -
  have "depthAfter 0 (ansiPieces line) = Some 0"
    using scan_depth [of None line] by (simp add: ansiPieces_def depthOf_def truthy_def)
  from depthAfter_counts [OF this] show ?thesis by auto
qed







text \<open>
  C7 as stated fails: an escape followed by \<open>]\<close> whose codes contain the reset code 0
  still closes the tag that is open.
\<close>

theorem ansi_bracket_counterexample:
  "charAt0 '']'' = '']''
   \<and> escBody ''0;32'' '']'' (Some ''RED'') = ([CloseTag], None)
   \<and> ansiPieces (CHR 0x1B # ''[31mA'' @ CHR 0x1B # ''[0;32m]'') =
       [OpenTag ''RED'', Chr (CHR ''A''), CloseTag, Chr (CHR '']'')]"
  by code_simp

text \<open>
  C7, amended. For an escape sequence followed by \<open>]\<close> no tag is opened, and the only
  tag that can be closed is the open one when the codes of the escape contain the reset
  code 0; otherwise nothing is emitted and the open colour stays. \<open>ESC[31m]\<close> yields \<open>]\<close>.
\<close>

theorem ansi_bracket_suppression:
  assumes "charAt0 rest = '']''"
  shows "opens (fst (escBody params rest opn)) = 0
    \<and> escBody params rest opn =
        (if 0 \<in> set (map Number (splitOn (CHR '';'') params)) \<and> truthy opn
         then ([CloseTag], None) else ([], opn))
    \<and> ansiToBBCode (CHR 0x1B # ''[31m]'') = '']''"
proof -
  have e: "escBody params rest opn =
        (if 0 \<in> set (map Number (splitOn (CHR '';'') params)) \<and> truthy opn
         then ([CloseTag], None) else ([], opn))"
    using assms by (simp add: escBody_def Let_def split: option.splits)
  have "opens (fst (escBody params rest opn)) = 0"
    unfolding e by (simp add: opens_def)
  moreover have "ansiToBBCode (CHR 0x1B # ''[31m]'') = '']''" by code_simp
  ultimately show ?thesis using e by blast
qed

theorem ansi_bracket_suppression_witness:
  "charAt0 '']x'' = '']'' \<and> escBody ''1;31'' '']x'' (Some ''GREEN'') = ([], Some ''GREEN'')"
proof -
  have c: "charAt0 '']x'' = '']''" by (simp add: charAt0_def)
  have n: "map Number (splitOn (CHR '';'') ''1;31'') = [1, 31]" by code_simp
  from ansi_bracket_suppression [OF c, of "''1;31''" "Some ''GREEN''"] c n
  show ?thesis by simp
qed

theorem ansi_balanced_witness:
  "opens (ansiPieces (CHR 0x1B # ''[31mA'')) = 1 \<and> closes (ansiPieces (CHR 0x1B # ''[31mA'')) = 1"
proof -
  have "opens (ansiPieces (CHR 0x1B # ''[31mA'')) = 1" by code_simp
  with ansi_balanced [of "CHR 0x1B # ''[31mA''"] show ?thesis by simp
qed

section \<open>Properties of the parser\<close>








lemma dedupe_damage:
  "filter (\<lambda>e. etype e = Damage) (dedupe seen es) = filter (\<lambda>e. etype e = Damage) es"
  by (induction es arbitrary: seen) auto

lemma dedupe_keys:
  "keyOf ` {e \<in> set (dedupe seen es). etype e = DslMessage} =
     keyOf ` {e \<in> set es. etype e = DslMessage} - seen"
proof (induction es arbitrary: seen)
  case Nil
  then show ?case by simp
next
  case (Cons e es)
  show ?case
  proof (cases "etype e = DslMessage")
    case False
    have "{x \<in> set (e # xs). etype x = DslMessage} = {x \<in> set xs. etype x = DslMessage}" for xs
      using False by auto
    with Cons.IH [of seen] False show ?thesis by simp
  next
    case True
    have c: "{x \<in> set (e # xs). etype x = DslMessage}
               = insert e {x \<in> set xs. etype x = DslMessage}" for xs
      using True by auto
    show ?thesis
    proof (cases "keyOf e \<in> seen")
      case True
      with Cons.IH [of seen] \<open>etype e = DslMessage\<close> c show ?thesis by auto
    next
      case False
      with Cons.IH [of "insert (keyOf e) seen"] \<open>etype e = DslMessage\<close> c show ?thesis by auto
    qed
  qed
qed

lemma dedupe_distinct:
  "distinct (map keyOf (filter (\<lambda>e. etype e = DslMessage) (dedupe seen es)))"
proof (induction es arbitrary: seen)
  case Nil
  then show ?case by simp
next
  case (Cons e es)
  have "keyOf e \<notin> keyOf ` {x \<in> set (dedupe (insert (keyOf e) seen) es). etype x = DslMessage}"
    unfolding dedupe_keys by simp
  then have "keyOf e \<notin> keyOf ` set (filter (\<lambda>e. etype e = DslMessage)
                                       (dedupe (insert (keyOf e) seen) es))"
    by simp
  with Cons.IH show ?case by simp
qed

lemma dedupe_snoc:
  "dedupe seen (xs @ [e]) =
     dedupe seen xs @
       (if etype e = DslMessage
           \<and> keyOf e \<in> seen \<union> set (map keyOf (filter (\<lambda>x. etype x = DslMessage) xs))
        then [] else [e])"
  by (induction xs arbitrary: seen) auto

lemma dedupe_first_kept: "dedupe {} es = rev (dropIfRepeated (rev es))"
proof (induction es rule: rev_induct)
  case Nil
  then show ?case by simp
next
  case (snoc e es)
  then show ?case by (simp add: dedupe_snoc)
qed

lemma distinct_filter_key:
  "distinct (map f xs) \<Longrightarrow> length (filter (\<lambda>x. f x = k) xs) \<le> 1"
  by (induction xs) (auto simp: filter_empty_conv image_iff)

text \<open>
  C3. The timeline holds at most one narrative entry per timestamp and text: of several
  equal ones the first in the sorted order stays, and each pair of the file stays
  present. Damage entries are never removed: all of them are in the timeline, in order.
\<close>

theorem parseLog_dedupe:
  assumes "parseLog decode text = Inr timeline"
  shows "\<exists>rawEntries. collect decode (splitLines text) = Inr rawEntries
    \<and> distinct (map keyOf (filter (\<lambda>e. etype e = DslMessage) timeline))
    \<and> (\<forall>t m. length (filter (\<lambda>e. etype e = DslMessage \<and> ts e = t \<and> message e = Some m)
                       timeline) \<le> 1)
    \<and> keyOf ` {e \<in> set timeline. etype e = DslMessage}
        = keyOf ` {e \<in> set rawEntries. etype e = DslMessage}
    \<and> timeline = rev (dropIfRepeated (rev (sort_key ts rawEntries)))
    \<and> filter (\<lambda>e. etype e = Damage) timeline
        = filter (\<lambda>e. etype e = Damage) (sort_key ts rawEntries)
    \<and> mset (filter (\<lambda>e. etype e = Damage) timeline)
        = mset (filter (\<lambda>e. etype e = Damage) rawEntries)"
proof -
  from assms obtain rawEntries where r: "collect decode (splitLines text) = Inr rawEntries"
    and t: "timeline = dedupe {} (sort_key ts rawEntries)"
    by (auto simp: parseLog_def split: sum.splits)
  have d: "distinct (map keyOf (filter (\<lambda>e. etype e = DslMessage) timeline))"
    unfolding t by (rule dedupe_distinct)
  have one: "length (filter (\<lambda>e. etype e = DslMessage \<and> ts e = u \<and> message e = Some m)
                       timeline) \<le> 1" for u m
  proof -
    have "filter (\<lambda>e. etype e = DslMessage \<and> ts e = u \<and> message e = Some m) timeline
          = filter (\<lambda>e. message e = Some m)
              (filter (\<lambda>e. keyOf e = (u, DslMessage, m))
                 (filter (\<lambda>e. etype e = DslMessage) timeline))"
      by (auto simp: keyOf_def intro!: filter_cong)
    also have "length \<dots> \<le> length (filter (\<lambda>e. keyOf e = (u, DslMessage, m))
                                  (filter (\<lambda>e. etype e = DslMessage) timeline))"
      by (rule length_filter_le)
    also have "\<dots> \<le> 1" by (rule distinct_filter_key [OF d])
    finally show ?thesis .
  qed
  have k: "keyOf ` {e \<in> set timeline. etype e = DslMessage}
        = keyOf ` {e \<in> set rawEntries. etype e = DslMessage}"
    unfolding t dedupe_keys by simp
  have f: "timeline = rev (dropIfRepeated (rev (sort_key ts rawEntries)))"
    unfolding t by (rule dedupe_first_kept)
  have g: "filter (\<lambda>e. etype e = Damage) timeline
        = filter (\<lambda>e. etype e = Damage) (sort_key ts rawEntries)"
    unfolding t by (rule dedupe_damage)
  have "mset (filter (\<lambda>e. etype e = Damage) (sort_key ts rawEntries))
        = mset (filter (\<lambda>e. etype e = Damage) rawEntries)"
    by simp
  with g have h: "mset (filter (\<lambda>e. etype e = Damage) timeline)
        = mset (filter (\<lambda>e. etype e = Damage) rawEntries)" by simp
  from r d one k f g h show ?thesis by blast
qed

lemma example_parse:
  "parseLog exampleDecode (''d'' @ [CHR 0x0D, CHR 0x0A] @ ''m'' @ [CHR 0x0A] @ ''m''
                            @ [CHR 0x0A] @ ''d'' @ [CHR 0x0A])
     = Inr [exampleRound, exampleNarrative, exampleRound]"
  by code_simp

theorem parseLog_dedupe_witness:
  "parseLog exampleDecode (''d'' @ [CHR 0x0D, CHR 0x0A] @ ''m'' @ [CHR 0x0A] @ ''m''
                            @ [CHR 0x0A] @ ''d'' @ [CHR 0x0A])
     = Inr [exampleRound, exampleNarrative, exampleRound]
   \<and> length (filter (\<lambda>e. etype e = DslMessage \<and> ts e = 5 \<and> message e = Some ''hi'')
        [exampleRound, exampleNarrative, exampleRound]) \<le> 1
   \<and> distinct (map keyOf (filter (\<lambda>e. etype e = DslMessage)
        [exampleRound, exampleNarrative, exampleRound]))"
  using parseLog_dedupe [OF example_parse] example_parse by blast


section \<open>Properties of the figures of a round\<close>

lemma plusAgg_plusAgg: "plusAgg (plusAgg a d h k) d' h' k' = plusAgg a (d + d') (h + h') (k + k')"
  by (simp add: plusAgg_def)

lemma plusAgg_zero: "plusAgg a 0 0 0 = a"
  by (simp add: plusAgg_def)

lemma map_of_mapSet: "map_of (mapSet k v m) = (map_of m)(k \<mapsto> v)"
  by (induction m) (auto simp: fun_eq_iff)

lemma getOrZero_mapSet: "getOrZero (mapSet k v m) n = (if n = k then v else getOrZero m n)"
  by (simp add: getOrZero_def map_of_mapSet)

lemma getOrZero_addRow:
  "getOrZero (addRow row m) n =
     (if normalizeActor (actor row) = n
      then plusAgg (getOrZero m n) (totalAsSource row) (countAsSource row) 0
      else getOrZero m n)"
  by (auto simp: addRow_def Let_def getOrZero_mapSet plusAgg_def)

lemma getOrZero_addHitEvent:
  "getOrZero (addHitEvent ev m) n =
     (if normalizeActor (source ev) = n \<and> amount ev > 0
      then plusAgg (getOrZero m n) (amount ev) 1 0
      else getOrZero m n)"
  by (auto simp: addHitEvent_def Let_def getOrZero_mapSet plusAgg_def)

lemma getOrZero_addMissEvent:
  "getOrZero (addMissEvent ev m) n =
     (if normalizeActor (source ev) = n \<and> amount ev = 0
      then plusAgg (getOrZero m n) 0 0 1
      else getOrZero m n)"
  by (auto simp: addMissEvent_def Let_def getOrZero_mapSet plusAgg_def)

lemma getOrZero_addEventToRound:
  "getOrZero (addEventToRound b ev m) n =
     (if normalizeActor (source ev) = n
      then plusAgg (getOrZero m n) (if \<not> b \<and> amount ev > 0 then amount ev else 0)
             (if \<not> b \<and> amount ev > 0 then 1 else 0) (if amount ev = 0 then 1 else 0)
      else getOrZero m n)"
  by (auto simp: addEventToRound_def Let_def getOrZero_mapSet plusAgg_def)

lemma fold_addRow:
  "getOrZero (foldl (\<lambda>m row. addRow row m) m rows) n =
     plusAgg (getOrZero m n)
       (sum_list (map totalAsSource (filter (\<lambda>r. normalizeActor (actor r) = n) rows)))
       (sum_list (map countAsSource (filter (\<lambda>r. normalizeActor (actor r) = n) rows))) 0"
  by (induction rows arbitrary: m) (simp_all add: plusAgg_zero getOrZero_addRow plusAgg_plusAgg)

lemma fold_addHitEvent:
  "getOrZero (foldl (\<lambda>m ev. addHitEvent ev m) m evs) n =
     plusAgg (getOrZero m n)
       (sum_list (map amount (filter (\<lambda>e. normalizeActor (source e) = n \<and> amount e > 0) evs)))
       (length (filter (\<lambda>e. normalizeActor (source e) = n \<and> amount e > 0) evs)) 0"
  by (induction evs arbitrary: m)
     (simp_all add: plusAgg_zero getOrZero_addHitEvent plusAgg_plusAgg)

lemma fold_addMissEvent:
  "getOrZero (foldl (\<lambda>m ev. addMissEvent ev m) m evs) n =
     plusAgg (getOrZero m n) 0 0
       (length (filter (\<lambda>e. normalizeActor (source e) = n \<and> amount e = 0) evs))"
  by (induction evs arbitrary: m)
     (simp_all add: plusAgg_zero getOrZero_addMissEvent plusAgg_plusAgg)

lemma fold_addEventToRound:
  "getOrZero (foldl (\<lambda>m ev. addEventToRound b ev m) m evs) n =
     plusAgg (getOrZero m n)
       (if b then 0
        else sum_list (map amount (filter (\<lambda>e. normalizeActor (source e) = n \<and> amount e > 0) evs)))
       (if b then 0
        else length (filter (\<lambda>e. normalizeActor (source e) = n \<and> amount e > 0) evs))
       (length (filter (\<lambda>e. normalizeActor (source e) = n \<and> amount e = 0) evs))"
  by (induction evs arbitrary: m)
     (simp_all add: plusAgg_zero getOrZero_addEventToRound plusAgg_plusAgg)

lemma no_rows: "\<not> hasBySource p \<Longrightarrow> rowsOf p = []"
  by (simp add: hasBySource_def)

lemma no_events: "\<not> hasEvents p \<Longrightarrow> eventsOf p = []"
  by (simp add: hasEvents_def)

lemma addRoundToActors_figures:
  "getOrZero (addRoundToActors p m) n =
     plusAgg (getOrZero m n) (actorDamage p n) (actorHits p n) (actorMisses p n)"
  by (cases "hasBySource p"; cases "hasEvents p")
     (simp_all add: addRoundToActors_def Let_def fold_addRow fold_addHitEvent fold_addMissEvent
        plusAgg_plusAgg plusAgg_zero actorDamage_def actorHits_def actorMisses_def no_events)

lemma roundPerSource_figures:
  "getOrZero (roundPerSource p) n =
     plusAgg zeroPerActor (actorDamage p n) (actorHits p n) (actorMisses p n)"
proof -
  have z: "getOrZero [] n = zeroPerActor" by (simp add: getOrZero_def)
  show ?thesis
    by (cases "hasBySource p"; cases "hasEvents p")
       (simp_all add: roundPerSource_def Let_def fold_addRow fold_addEventToRound z
          plusAgg_plusAgg plusAgg_zero actorDamage_def actorHits_def actorMisses_def
          no_events no_rows)
qed

lemma fold_sum_rat: "foldl (\<lambda>s r. s + f r) (a::rat) xs = a + sum_list (map f xs)"
  by (induction xs arbitrary: a) simp_all

lemma fold_sum_nat: "foldl (\<lambda>s r. s + f r) (a::nat) xs = a + sum_list (map f xs)"
  by (induction xs arbitrary: a) simp_all

lemma fold_addHitToTotals:
  "foldl (\<lambda>t ev. addHitToTotals ev t) t evs =
     plusAgg t (sum_list (map amount (filter (\<lambda>e. amount e > 0) evs)))
       (length (filter (\<lambda>e. amount e > 0) evs)) 0"
  by (induction evs arbitrary: t)
     (simp_all add: plusAgg_zero addHitToTotals_def plusAgg_plusAgg, simp_all add: plusAgg_def)

lemma addRoundToTotals_figures:
  "addRoundToTotals p t = plusAgg t (roundDamage p) (roundHits p) (roundMisses p)"
  by (cases "hasBySource p"; cases "hasEvents p")
     (simp_all add: addRoundToTotals_def Let_def fold_addHitToTotals fold_sum_rat fold_sum_nat
        roundDamage_def roundHits_def roundMisses_def claimedRoundDamage_def
        claimedRoundHits_def plusAgg_def)


lemma keys_mapSet: "map fst (mapSet k v m) = (if k \<in> set (map fst m) then map fst m else map fst m @ [k])"
  by (induction m) (auto simp: image_iff, force+)

lemma distinct_mapSet: "distinct (map fst m) \<Longrightarrow> distinct (map fst (mapSet k v m))"
  by (simp add: keys_mapSet)

lemma distinct_fold_addRow:
  "distinct (map fst m) \<Longrightarrow> distinct (map fst (foldl (\<lambda>m row. addRow row m) m rows))"
  by (induction rows arbitrary: m) (simp_all add: addRow_def Let_def distinct_mapSet)

lemma distinct_fold_addEventToRound:
  "distinct (map fst m) \<Longrightarrow> distinct (map fst (foldl (\<lambda>m ev. addEventToRound b ev m) m evs))"
  by (induction evs arbitrary: m) (simp_all add: addEventToRound_def Let_def distinct_mapSet)

lemma distinct_roundPerSource: "distinct (map fst (roundPerSource p))"
  by (simp add: roundPerSource_def Let_def distinct_fold_addRow distinct_fold_addEventToRound)

lemma distinct_buildRound: "distinct (map fst (buildRoundPerSourceLines p))"
proof -
  have "mset (map fst (buildRoundPerSourceLines p)) = mset (map fst (roundPerSource p))"
    by (simp add: buildRoundPerSourceLines_def)
  then show ?thesis using distinct_roundPerSource [of p] by (metis mset_eq_imp_distinct_iff)
qed

lemma buildRound_figures:
  assumes "(name, agg) \<in> set (buildRoundPerSourceLines p)"
  shows "agg = plusAgg zeroPerActor (actorDamage p name) (actorHits p name) (actorMisses p name)"
proof -
  from assms have "(name, agg) \<in> set (roundPerSource p)"
    by (simp add: buildRoundPerSourceLines_def)
  with distinct_roundPerSource [of p] have "map_of (roundPerSource p) name = Some agg" by simp
  then have "getOrZero (roundPerSource p) name = agg" by (simp add: getOrZero_def)
  with roundPerSource_figures [of p name] show ?thesis by simp
qed

text \<open>
  C1 as stated fails for the totals: a round with neither rows by source nor events adds
  its own \<open>totalDamage\<close> and \<open>hits\<close>, not the (empty) sums over its events.
\<close>

theorem round_figures_counterexample:
  "\<not> hasBySource exampleDamage
   \<and> damage (addRoundToTotals exampleDamage zeroPerActor) = 7
   \<and> claimedRoundDamage exampleDamage = 0
   \<and> hitsAcc (addRoundToTotals exampleDamage zeroPerActor) = 1
   \<and> claimedRoundHits exampleDamage = 0"
  by (simp add: exampleDamage_def hasBySource_def hasEvents_def rowsOf_def eventsOf_def
        addRoundToTotals_def zeroPerActor_def claimedRoundDamage_def claimedRoundHits_def)

text \<open>
  C1, amended. The totals of a round, the per-actor figures accumulated for a fight and
  the per-actor figures displayed for a round follow one precedence: the rows by source
  when there are any, else the events with a positive amount; misses are the events with
  amount 0. Only the totals have a third tier: a round with neither rows nor events adds
  its own \<open>totalDamage\<close> and \<open>hits\<close>, and a round without events adds its own \<open>misses\<close>.
\<close>

theorem round_figures_precedence:
  "addRoundToTotals p t = plusAgg t (roundDamage p) (roundHits p) (roundMisses p)
   \<and> getOrZero (addRoundToActors p m) n
       = plusAgg (getOrZero m n) (actorDamage p n) (actorHits p n) (actorMisses p n)
   \<and> distinct (map fst (buildRoundPerSourceLines p))
   \<and> (\<forall>(name, agg) \<in> set (buildRoundPerSourceLines p).
         agg = plusAgg zeroPerActor (actorDamage p name) (actorHits p name) (actorMisses p name))
   \<and> (hasBySource p \<or> hasEvents p \<longrightarrow>
         roundDamage p = claimedRoundDamage p \<and> roundHits p = claimedRoundHits p)"
  using buildRound_figures [of _ _ p]
  by (auto simp: addRoundToTotals_figures addRoundToActors_figures distinct_buildRound
        roundDamage_def roundHits_def)

theorem round_figures_precedence_witness:
  "hasEvents exampleEventsRound
   \<and> roundDamage exampleEventsRound = claimedRoundDamage exampleEventsRound
   \<and> buildRoundPerSourceLines exampleEventsRound =
       [(''Rogar'', \<lparr>damage = 5, hitsAcc = 1, missesAcc = 1\<rparr>),
        (''Mira'', \<lparr>damage = 3, hitsAcc = 1, missesAcc = 0\<rparr>)]
   \<and> plusAgg zeroPerActor (actorDamage exampleEventsRound ''Rogar'')
        (actorHits exampleEventsRound ''Rogar'') (actorMisses exampleEventsRound ''Rogar'')
       = \<lparr>damage = 5, hitsAcc = 1, missesAcc = 1\<rparr>
   \<and> addRoundToTotals exampleEventsRound zeroPerActor
       = \<lparr>damage = 8, hitsAcc = 2, missesAcc = 1\<rparr>"
proof -
  have e: "hasEvents exampleEventsRound" by code_simp
  have b: "buildRoundPerSourceLines exampleEventsRound =
       [(''Rogar'', \<lparr>damage = 5, hitsAcc = 1, missesAcc = 1\<rparr>),
        (''Mira'', \<lparr>damage = 3, hitsAcc = 1, missesAcc = 0\<rparr>)]" by code_simp
  have t: "addRoundToTotals exampleEventsRound zeroPerActor
       = \<lparr>damage = 8, hitsAcc = 2, missesAcc = 1\<rparr>" by code_simp
  from round_figures_precedence [of exampleEventsRound zeroPerActor "[]" "''Rogar''"] e b t
  show ?thesis by simp
qed

section \<open>Properties of the fight summaries\<close>

subsection \<open>The sum of the per-actor damages\<close>











subsection \<open>Summaries on the terminal\<close>



lemma closedOut_append: "ys \<noteq> [] \<Longrightarrow> closedOut (xs @ ys) = closedOut ys"
  by (simp add: closedOut_def)




lemma closedOut_summaryBlock: "closedOut (summaryBlock s)"
  by (simp add: summaryBlock_def closedOut_def)


subsection \<open>The invariant of the accumulator\<close>







lemma findIndex_bounds: "- 1 \<le> findIndex P xs \<and> findIndex P xs < int (length xs)"
  by (induction xs) (auto simp: Let_def)

lemma visibleEnd_le: "visibleEnd entries time \<le> length entries"
  using findIndex_bounds [of "\<lambda>e. of_int (ts e) > cutoffOf entries time" entries]
  by (auto simp: visibleEnd_def Let_def)








subsection \<open>The flush before a round\<close>



lemma FIVE_MIN_MS_value: "FIVE_MIN_MS = 300000"
  by (simp add: FIVE_MIN_MS_def)

lemma fightOpen_iff_not_zero:
  "0 \<le> damage (totals s) \<Longrightarrow> fightOpen s \<longleftrightarrow> \<not> accumulatorZero s"
  by (auto simp: fightOpen_def accumulatorZero_def)

lemma flush_noop_iff: "flushFightSummary s = s \<longleftrightarrow> accumulatorZero s"
  by (auto simp: flushFightSummary_def accumulatorZero_def summaryBlock_def
        dest: arg_cong [where f = terminal])



section \<open>Properties of the playback cursor\<close>

subsection \<open>The loop over the newly visible entries\<close>

lemma emitLoop_fold:
  "endIdx \<le> length entries \<Longrightarrow>
     emitLoop entries i endIdx s
       = foldl (\<lambda>s e. processEntry e s) s (take (endIdx - i) (drop i entries))"
proof (induction entries i endIdx s rule: emitLoop.induct)
  case (1 entries i endIdx s)
  show ?case
  proof (cases "i < endIdx")
    case True
    with "1.prems" have "i < length entries" by simp
    then have d: "drop i entries = entries ! i # drop (Suc i) entries"
      by (simp add: Cons_nth_drop_Suc)
    from True have "endIdx - i = Suc (endIdx - Suc i)" by simp
    with d have "take (endIdx - i) (drop i entries)
                   = entries ! i # take (endIdx - Suc i) (drop (Suc i) entries)" by simp
    with "1.IH" [OF True "1.prems"] True show ?thesis
      by (subst emitLoop.simps) simp
  next
    case False
    then show ?thesis by (subst emitLoop.simps) simp
  qed
qed

lemma emitEntries_fold:
  "emitEntries entries time s
     = (foldl (\<lambda>s e. processEntry e s) s (newlyVisible entries time s))
         \<lparr>lastIndex := visibleEnd entries time\<rparr>"
  by (simp add: emitEntries_def Let_def newlyVisible_def emitLoop_fold visibleEnd_le)

lemma findIndex_takeWhile:
  "findIndex P xs =
     (if list_ex P xs then int (length (takeWhile (\<lambda>x. \<not> P x) xs)) else - 1)"
  by (induction xs) (auto simp: Let_def)

lemma visibleEnd_takeWhile:
  "visibleEnd entries time
     = length (takeWhile (\<lambda>e. of_int (ts e) \<le> cutoffOf entries time) entries)"
proof -
  have n: "(\<lambda>e. \<not> of_int (ts e) > cutoffOf entries time)
             = (\<lambda>e. of_int (ts e) \<le> cutoffOf entries time)"
    by (auto simp: fun_eq_iff)
  show ?thesis
  proof (cases "list_ex (\<lambda>e. of_int (ts e) > cutoffOf entries time) entries")
    case True
    then show ?thesis by (simp add: visibleEnd_def Let_def findIndex_takeWhile n)
  next
    case False
    then have "takeWhile (\<lambda>e. of_int (ts e) \<le> cutoffOf entries time) entries = entries"
      by (auto simp: list_ex_iff takeWhile_eq_all_conv not_less)
    then have "length (takeWhile (\<lambda>e. of_int (ts e) \<le> cutoffOf entries time) entries)
                 = length entries" by (rule arg_cong)
    moreover from False have "visibleEnd entries time = length entries"
      by (simp add: visibleEnd_def Let_def findIndex_takeWhile)
    ultimately show ?thesis by simp
  qed
qed

lemma visibleEnd_visible:
  "i < visibleEnd entries time \<Longrightarrow> of_int (ts (entries ! i)) \<le> cutoffOf entries time"
  unfolding visibleEnd_takeWhile
  using nth_length_takeWhile takeWhile_nth
  by (metis (mono_tags, lifting) nth_mem set_takeWhileD)

lemma visibleEnd_next:
  "visibleEnd entries time < length entries \<Longrightarrow>
     of_int (ts (entries ! visibleEnd entries time)) > cutoffOf entries time"
  unfolding visibleEnd_takeWhile
  using nth_length_takeWhile [of "\<lambda>e. of_int (ts e) \<le> cutoffOf entries time" entries]
  by (simp add: not_le)

subsection \<open>Rounds without a gap\<close>

lemma processEntry_narrative_acc:
  "etype e = DslMessage \<Longrightarrow>
     totals (processEntry e s) = totals s \<and> byActor (processEntry e s) = byActor s
     \<and> lastDamageTs (processEntry e s) = lastDamageTs s"
  by (simp add: processEntry_def Let_def)

lemma processRound_no_gap:
  "(case lastDamageTs s of None \<Rightarrow> True | Some l \<Rightarrow> curTs - l < FIVE_MIN_MS) \<Longrightarrow>
     totals (processRound curTs p s) = addRoundToTotals p (totals s)
     \<and> byActor (processRound curTs p s) = addRoundToActors p (byActor s)
     \<and> lastDamageTs (processRound curTs p s) = Some curTs"
  by (auto simp: processRound_def Let_def gapFlushDue_def split: option.splits)

lemma filter_header_lines:
  "filter isRoundHeader (map (\<lambda>(name, agg). ActorLine name agg) rows) = []"
  by (induction rows) auto

lemma roundCount_append: "roundCount (xs @ ys) = roundCount xs + roundCount ys"
  by (simp add: roundCount_def)

lemma roundCount_summaryBlock: "roundCount (summaryBlock s) = 0"
  by (simp add: summaryBlock_def roundCount_def filter_header_lines del: filter_map)

lemma roundCount_flush: "roundCount (terminal (flushFightSummary s)) = roundCount (terminal s)"
  by (simp add: flushFightSummary_def roundCount_append roundCount_summaryBlock)

lemma roundCount_roundLines: "roundCount (roundLines p) = 1"
  by (simp add: roundLines_def Let_def roundCount_def filter_header_lines del: filter_map)

lemma roundCount_processRound:
  "roundCount (terminal (processRound curTs p s)) = Suc (roundCount (terminal s))"
proof -
  have "roundCount [Blank, Blank] = 0" by (simp add: roundCount_def)
  then show ?thesis
    by (simp add: processRound_def Let_def roundCount_append roundCount_flush
          roundCount_roundLines)
qed

lemma roundCount_fold:
  "roundCount (terminal (foldl (\<lambda>s e. processEntry e s) s es))
     = roundCount (terminal s) + length (roundsIn es)"
proof (induction es arbitrary: s)
  case Nil
  then show ?case by simp
next
  case (Cons e es)
  have "roundCount (terminal (processEntry e s))
          = roundCount (terminal s) + length (roundsIn [e])"
    by (cases "etype e"; cases "payload e")
       (simp_all add: processEntry_def Let_def roundCount_append roundCount_processRound,
        simp_all add: roundCount_def)
  moreover have "roundsIn (e # es) = roundsIn [e] @ roundsIn es"
    by (cases "etype e"; cases "payload e") simp_all
  ultimately show ?case using Cons.IH [of "processEntry e s"] by simp
qed

lemma fold_no_gap:
  "noGap (lastDamageTs s) es \<Longrightarrow>
     totals (foldl (\<lambda>s e. processEntry e s) s es)
       = foldl (\<lambda>t p. addRoundToTotals p t) (totals s) (roundsIn es)
     \<and> byActor (foldl (\<lambda>s e. processEntry e s) s es)
       = foldl (\<lambda>m p. addRoundToActors p m) (byActor s) (roundsIn es)"
proof (induction es arbitrary: s)
  case Nil
  then show ?case by simp
next
  case (Cons e es)
  show ?case
  proof (cases "etype e")
    case DslMessage
    with Cons.prems have "noGap (lastDamageTs (processEntry e s)) es"
      by (simp add: processEntry_narrative_acc)
    from Cons.IH [OF this] DslMessage show ?thesis
      by (simp add: processEntry_narrative_acc)
  next
    case Damage
    show ?thesis
    proof (cases "payload e")
      case None
      with Damage have "processEntry e s = s" by (simp add: processEntry_def)
      with Cons None Damage show ?thesis by simp
    next
      case (Some p)
      with Damage Cons.prems
      have g: "case lastDamageTs s of None \<Rightarrow> True | Some l \<Rightarrow> ts e - l < FIVE_MIN_MS"
        and n: "noGap (Some (ts e)) es" by simp_all
      from Damage Some have pe: "processEntry e s = processRound (ts e) p s"
        by (simp add: processEntry_def)
      from processRound_no_gap [OF g, of p] n
      have "noGap (lastDamageTs (processEntry e s)) es" by (simp add: pe)
      from Cons.IH [OF this] processRound_no_gap [OF g, of p] Damage Some show ?thesis
        by (simp add: pe)
    qed
  qed
qed

text \<open>
  C6. The cutoff is the instant of the first entry plus the elapsed seconds; the new
  boundary is the index of the first entry that is strictly later than the cutoff, or
  the length of the timeline, so that an entry at the cutoff is visible; the entries
  from the previous boundary to the new one are all processed, in order; and when no
  gap of five minutes separates the damage rounds among them, every one of these rounds
  is accumulated. Each damage round among them writes its header, gap or no gap.
\<close>

theorem advance_processes_all:
  "cutoffOf entries time = of_int (ts (entries ! 0)) + time * 1000
   \<and> visibleEnd entries time
       = length (takeWhile (\<lambda>e. of_int (ts e) \<le> cutoffOf entries time) entries)
   \<and> visibleEnd entries time \<le> length entries
   \<and> (\<forall>i < visibleEnd entries time. of_int (ts (entries ! i)) \<le> cutoffOf entries time)
   \<and> (visibleEnd entries time < length entries \<longrightarrow>
         of_int (ts (entries ! visibleEnd entries time)) > cutoffOf entries time)
   \<and> emitEntries entries time s
       = (foldl (\<lambda>s e. processEntry e s) s (newlyVisible entries time s))
           \<lparr>lastIndex := visibleEnd entries time\<rparr>
   \<and> roundCount (terminal (emitEntries entries time s))
       = roundCount (terminal s) + length (roundsIn (newlyVisible entries time s))
   \<and> (noGap (lastDamageTs s) (newlyVisible entries time s) \<longrightarrow>
         totals (emitEntries entries time s)
           = foldl (\<lambda>t p. addRoundToTotals p t) (totals s)
               (roundsIn (newlyVisible entries time s))
         \<and> byActor (emitEntries entries time s)
           = foldl (\<lambda>m p. addRoundToActors p m) (byActor s)
               (roundsIn (newlyVisible entries time s)))"
proof -
  have "cutoffOf entries time = of_int (ts (entries ! 0)) + time * 1000"
    by (simp add: cutoffOf_def)
  moreover note visibleEnd_takeWhile [of entries time] visibleEnd_le [of entries time]
  moreover have "\<forall>i < visibleEnd entries time.
                   of_int (ts (entries ! i)) \<le> cutoffOf entries time"
    using visibleEnd_visible by blast
  moreover note visibleEnd_next [of entries time] emitEntries_fold [of entries time s]
  moreover have "roundCount (terminal (emitEntries entries time s))
       = roundCount (terminal s) + length (roundsIn (newlyVisible entries time s))"
    by (simp add: emitEntries_fold roundCount_fold)
  moreover have "noGap (lastDamageTs s) (newlyVisible entries time s) \<longrightarrow>
         totals (emitEntries entries time s)
           = foldl (\<lambda>t p. addRoundToTotals p t) (totals s)
               (roundsIn (newlyVisible entries time s))
         \<and> byActor (emitEntries entries time s)
           = foldl (\<lambda>m p. addRoundToActors p m) (byActor s)
               (roundsIn (newlyVisible entries time s))"
    using fold_no_gap [of s "newlyVisible entries time s"] by (simp add: emitEntries_fold)
  ultimately show ?thesis by blast
qed

theorem advance_processes_all_witness:
  "visibleEnd exampleTimeline 2 = 3
   \<and> roundsIn (newlyVisible exampleTimeline 2 initState)
       = [exampleEventsRound, exampleEventsRound]
   \<and> noGap (lastDamageTs initState) (newlyVisible exampleTimeline 2 initState)
   \<and> totals (emitEntries exampleTimeline 2 initState)
       = foldl (\<lambda>t p. addRoundToTotals p t) (totals initState)
           [exampleEventsRound, exampleEventsRound]
   \<and> totals (emitEntries exampleTimeline 2 initState)
       = \<lparr>damage = 16, hitsAcc = 4, missesAcc = 2\<rparr>"
proof -
  have v: "visibleEnd exampleTimeline 2 = 3" by code_simp
  have r: "roundsIn (newlyVisible exampleTimeline 2 initState)
       = [exampleEventsRound, exampleEventsRound]" by code_simp
  have n: "noGap (lastDamageTs initState) (newlyVisible exampleTimeline 2 initState)"
    by code_simp
  have t: "totals (emitEntries exampleTimeline 2 initState)
       = \<lparr>damage = 16, hitsAcc = 4, missesAcc = 2\<rparr>" by code_simp
  from advance_processes_all [of exampleTimeline 2 initState] v r n t
  show ?thesis by simp
qed

subsection \<open>The flush at the end of the log\<close>














end
